theory Spec2Isabelle
  imports Main
begin

section \<open>Registry manager: upsert of transport details\<close>

text \<open>
  Source: package \<open>registrymgr\<close>, \<open>registry.UpsertTransportDetails\<close> and
  \<open>registry.upsertTransportDetailsBatch\<close>.  The function validates every entry of the
  request, converts it to a row of the table \<open>registry_transport_details\<close>, and issues one
  \<open>INSERT ... ON CONFLICT (registry, node, transport) DO UPDATE SET details = excluded.details\<close>
  through the ORM.  On success it hands back a callback that drops the updated nodes from the
  registry cache.
\<close>

text \<open>\<open>prototk.TransportDetails\<close>: one entry of the request.\<close>

record TransportDetails =
  req_Node :: string
  req_Transport :: string
  req_Details :: string

text \<open>\<open>components.RegistryNodeTransportEntry\<close>: one row of the table.\<close>

record RegistryNodeTransportEntry =
  Registry :: string
  Node :: string
  Transport :: string
  Details :: string

type_synonym transport_details_table = "RegistryNodeTransportEntry list"

text \<open>
  Errors of the batch upsert: the validation error of the function itself, and whatever
  the database layer reports.
\<close>

datatype 'e registry_error = MsgRegistryInvalidEntry | DBError 'e

datatype db_error = ErrEmptySlice

text \<open>The conflict columns of the \<open>OnConflict\<close> clause.\<close>

definition conflict_key :: "RegistryNodeTransportEntry \<Rightarrow> string \<times> string \<times> string" where
  "conflict_key e = (Registry e, Node e, Transport e)"

text \<open>
  One row under \<open>ON CONFLICT (registry, node, transport) DO UPDATE SET details\<close>:
  the row that conflicts keeps its place and its key columns and takes the new
  \<open>details\<close>; without a conflict the row is inserted.
\<close>

fun insert_on_conflict ::
  "RegistryNodeTransportEntry \<Rightarrow> transport_details_table \<Rightarrow> transport_details_table" where
  "insert_on_conflict e [] = [e]"
| "insert_on_conflict e (r # rs) =
     (if conflict_key r = conflict_key e then r\<lparr>Details := Details e\<rparr> # rs
      else r # insert_on_conflict e rs)"

text \<open>
  \<open>dbTX.Table(...).Clauses(clause.OnConflict{...}).Create(entries)\<close>: the rows are
  applied in the order of the slice; the ORM refuses an empty slice.  A database that
  cannot be reached is outside the model.
\<close>

definition db_create_on_conflict ::
  "RegistryNodeTransportEntry list \<Rightarrow> transport_details_table \<Rightarrow> db_error + transport_details_table" where
  "db_create_on_conflict entries tbl =
     (if entries = [] then Inl ErrEmptySlice
      else Inr (foldl (\<lambda>t e. insert_on_conflict e t) tbl entries))"

text \<open>
  The loop of \<open>upsertTransportDetailsBatch\<close>: it stops at the first entry with an empty
  node or transport name, and otherwise collects the rows and the set \<open>updatedNodes\<close>.
\<close>

fun convert_entries ::
  "string \<Rightarrow> TransportDetails list \<Rightarrow> (RegistryNodeTransportEntry list \<times> string set) option" where
  "convert_entries rid [] = Some ([], {})"
| "convert_entries rid (req # reqs) =
     (if req_Node req = [] \<or> req_Transport req = [] then None
      else (case convert_entries rid reqs of
              None \<Rightarrow> None
            | Some (es, ns) \<Rightarrow>
                Some (\<lparr>Registry = rid, Node = req_Node req, Transport = req_Transport req,
                       Details = req_Details req\<rparr> # es,
                      insert (req_Node req) ns)))"

text \<open>
  \<open>upsertTransportDetailsBatch\<close>, with the registry id \<open>r.id.String()\<close> and the table
  passed explicitly.  The result is the new table together with the nodes the returned
  post-commit callback will drop from the cache.
\<close>

definition upsertTransportDetailsBatch ::
  "string \<Rightarrow> transport_details_table \<Rightarrow> TransportDetails list
     \<Rightarrow> db_error registry_error + (transport_details_table \<times> string set)" where
  "upsertTransportDetailsBatch rid tbl protoEntries =
     (case convert_entries rid protoEntries of
        None \<Rightarrow> Inl MsgRegistryInvalidEntry
      | Some (entries, updatedNodes) \<Rightarrow>
          (case db_create_on_conflict entries tbl of
             Inl err \<Rightarrow> Inl (DBError err)
           | Inr tbl' \<Rightarrow> Inr (tbl', updatedNodes)))"

text \<open>
  The state the registry manager works on: the table and the per-node cache
  \<open>registryCache\<close>.
\<close>

record 'c registry_state =
  table :: transport_details_table
  registryCache :: "string \<rightharpoonup> 'c"

text \<open>
  \<open>UpsertTransportDetails\<close>: on an error nothing is changed and the error is returned;
  otherwise the post-commit callback runs and deletes every updated node from the cache.
\<close>

definition UpsertTransportDetails ::
  "string \<Rightarrow> 'c registry_state \<Rightarrow> TransportDetails list
     \<Rightarrow> db_error registry_error + 'c registry_state" where
  "UpsertTransportDetails rid st reqs =
     (case upsertTransportDetailsBatch rid (table st) reqs of
        Inl err \<Rightarrow> Inl err
      | Inr (tbl', updatedNodes) \<Rightarrow>
          Inr (st\<lparr>table := tbl', registryCache := registryCache st |` (- updatedNodes)\<rparr>))"


section \<open>Private transaction manager: transport writer\<close>







text \<open>
  \<open>components.PrivateTransaction\<close>: the writer reads its \<open>ID\<close> and hands the whole
  value to \<open>json.Marshal\<close>; further fields live in the extension of the record.
\<close>

record PrivateTransaction =
  ID :: string










section \<open>Sequencer: the endorsement gate\<close>

text \<open>
  Modelled from the spec: the endorsement gate.  Missing from the repository files
  modelled here is the implementation of the sequencer, whose methods
  \<open>ApproveEndorsement\<close> and \<open>OnTransactionReverted\<close> the tests of the sequencer
  call; the tests themselves are present.  State: \<open>signedInputs\<close> from state id to
  transaction id, and \<open>signedByTx\<close> from transaction id to the set of state ids.
\<close>

record endorsement_gate =
  signedInputs :: "string \<rightharpoonup> string"
  signedByTx :: "string \<Rightarrow> string set"

text \<open>
  Modelled from the spec: the answer \<open>{approve, reasonIfReject, currentHolderIfReject}\<close>
  as a sum; the reason names the contended state.
\<close>

datatype reject_reason = InputAlreadySigned string

datatype endorsement_decision =
    Approve
  | Reject (reasonIfReject: reject_reason) (currentHolderIfReject: string)

text \<open>
  Modelled from the spec: a new sequencer has endorsed nothing.
\<close>

definition new_gate :: endorsement_gate where
  "new_gate = \<lparr>signedInputs = Map.empty, signedByTx = (\<lambda>_. {})\<rparr>"

text \<open>
  Modelled from the spec: the first input state that \<open>signedInputs\<close> holds for another
  transaction, with its holder.
\<close>

fun find_contention :: "(string \<rightharpoonup> string) \<Rightarrow> string \<Rightarrow> string list \<Rightarrow> (string \<times> string) option" where
  "find_contention signed txId [] = None"
| "find_contention signed txId (s # ss) =
     (case signed s of
        None \<Rightarrow> find_contention signed txId ss
      | Some holder \<Rightarrow> if holder = txId then find_contention signed txId ss else Some (s, holder))"

text \<open>Modelled from the spec: \<open>signedInputs[s] := txId\<close> for every input.\<close>

fun record_inputs :: "(string \<rightharpoonup> string) \<Rightarrow> string \<Rightarrow> string list \<Rightarrow> (string \<rightharpoonup> string)" where
  "record_inputs signed txId [] = signed"
| "record_inputs signed txId (s # ss) = record_inputs (signed(s \<mapsto> txId)) txId ss"

text \<open>
  Modelled from the spec: \<open>ApproveEndorsement\<close>.  Approve iff for every input state
  \<open>signedInputs\<close> is absent or equals \<open>txId\<close>; on approval every input is recorded for
  \<open>txId\<close>; on rejection nothing changes.
\<close>

definition ApproveEndorsement ::
  "endorsement_gate \<Rightarrow> string \<Rightarrow> string list \<Rightarrow> endorsement_decision \<times> endorsement_gate" where
  "ApproveEndorsement g txId inputStates =
     (case find_contention (signedInputs g) txId inputStates of
        Some (s, holder) \<Rightarrow> (Reject (InputAlreadySigned s) holder, g)
      | None \<Rightarrow>
          (Approve,
           g\<lparr>signedInputs := record_inputs (signedInputs g) txId inputStates,
             signedByTx := (signedByTx g)(txId := signedByTx g txId \<union> set inputStates)\<rparr>))"

text \<open>
  Modelled from the spec: \<open>OnTransactionReverted\<close> removes every \<open>signedInputs[s]\<close>
  whose value equals \<open>txId\<close>.
\<close>

definition OnTransactionReverted :: "endorsement_gate \<Rightarrow> string \<Rightarrow> endorsement_gate" where
  "OnTransactionReverted g txId =
     g\<lparr>signedInputs := (\<lambda>s. if signedInputs g s = Some txId then None else signedInputs g s),
       signedByTx := (signedByTx g)(txId := {})\<rparr>"

section \<open>Properties\<close>

subsection \<open>Properties of the upsert\<close>


lemma insert_on_conflict_existing:
  "distinct (map conflict_key tbl) \<Longrightarrow> conflict_key e \<in> conflict_key ` set tbl \<Longrightarrow>
   insert_on_conflict e tbl =
     map (\<lambda>r. if conflict_key r = conflict_key e then r\<lparr>Details := Details e\<rparr> else r) tbl"
proof (induction tbl)
  case Nil
  then show ?case by simp
next
  case (Cons r rs)
  show ?case
  proof (cases "conflict_key r = conflict_key e")
    case True
    with Cons.prems(1) have "\<forall>x \<in> set rs. conflict_key x \<noteq> conflict_key e"
      by (auto simp: image_iff)
    then have "map (\<lambda>r. if conflict_key r = conflict_key e then r\<lparr>Details := Details e\<rparr> else r) rs = rs"
      by (induction rs) auto
    with True show ?thesis by simp
  next
    case False
    with Cons show ?thesis by auto
  qed
qed

lemma insert_on_conflict_idem:
  "insert_on_conflict e (insert_on_conflict e tbl) = insert_on_conflict e tbl"
  by (induction tbl) (auto simp: conflict_key_def)

lemma insert_on_conflict_present:
  "distinct (map conflict_key tbl) \<Longrightarrow> e \<in> set tbl \<Longrightarrow> insert_on_conflict e tbl = tbl"
  by (induction tbl) (auto simp: rev_image_eqI)

lemma conflict_key_Details_update [simp]:
  "conflict_key (r\<lparr>Details := d\<rparr>) = conflict_key r"
  by (simp add: conflict_key_def)

lemma UpsertTransportDetails_result:
  "UpsertTransportDetails rid st reqs = Inr st' \<Longrightarrow>
   \<exists>ns. upsertTransportDetailsBatch rid (table st) reqs = Inr (table st', ns) \<and>
        registryCache st' = registryCache st |` (- ns)"
  by (auto simp: UpsertTransportDetails_def split: sum.splits)

lemma UpsertTransportDetails_error:
  "UpsertTransportDetails rid st reqs = Inl err \<longleftrightarrow>
   upsertTransportDetailsBatch rid (table st) reqs = Inl err"
  by (auto simp: UpsertTransportDetails_def split: sum.splits)

lemma upsert_single:
  "req_Node req \<noteq> [] \<Longrightarrow> req_Transport req \<noteq> [] \<Longrightarrow>
   upsertTransportDetailsBatch rid tbl [req] =
     Inr (insert_on_conflict \<lparr>Registry = rid, Node = req_Node req, Transport = req_Transport req,
                              Details = req_Details req\<rparr> tbl, {req_Node req})"
  by (simp add: upsertTransportDetailsBatch_def db_create_on_conflict_def)



text \<open>
  Claim C9.  An entry with a node and a transport name is upserted as follows.  On a
  table whose rows are distinct on \<open>(registry, node, transport)\<close> and that holds a row
  with the key of the entry, the upsert succeeds and the new table is the old one with
  the \<open>details\<close> of exactly that row replaced by the new value: the other rows, the key
  columns and the order of the rows stay as they were.  If that row already has the
  details of the entry, the table is returned as it was.  On any table, upserting the
  same entry once more leaves the table as the first upsert made it.
\<close>

theorem upsert_existing_replaces_details_only:
  assumes "req_Node req \<noteq> []" and "req_Transport req \<noteq> []"
  shows "(distinct (map conflict_key tbl) \<and>
          (rid, req_Node req, req_Transport req) \<in> conflict_key ` set tbl \<longrightarrow>
            upsertTransportDetailsBatch rid tbl [req] =
              Inr (map (\<lambda>r. if conflict_key r = (rid, req_Node req, req_Transport req)
                             then r\<lparr>Details := req_Details req\<rparr> else r) tbl,
                   {req_Node req}))
         \<and> (distinct (map conflict_key tbl) \<and>
             \<lparr>Registry = rid, Node = req_Node req, Transport = req_Transport req,
              Details = req_Details req\<rparr> \<in> set tbl \<longrightarrow>
            upsertTransportDetailsBatch rid tbl [req] = Inr (tbl, {req_Node req}))
         \<and> (\<exists>tbl'. upsertTransportDetailsBatch rid tbl [req] = Inr (tbl', {req_Node req})
                  \<and> upsertTransportDetailsBatch rid tbl' [req] = Inr (tbl', {req_Node req}))"
proof -
  define e where "e = \<lparr>Registry = rid, Node = req_Node req, Transport = req_Transport req,
                        Details = req_Details req\<rparr>"
  have key: "conflict_key e = (rid, req_Node req, req_Transport req)"
    by (simp add: e_def conflict_key_def)
  have det: "Details e = req_Details req"
    by (simp add: e_def)
  have single: "\<And>t. upsertTransportDetailsBatch rid t [req] =
      Inr (insert_on_conflict e t, {req_Node req})"
    using assms by (simp add: upsert_single e_def)
  have existing: "upsertTransportDetailsBatch rid tbl [req] =
              Inr (map (\<lambda>r. if conflict_key r = (rid, req_Node req, req_Transport req)
                             then r\<lparr>Details := req_Details req\<rparr> else r) tbl,
                   {req_Node req})"
    if "distinct (map conflict_key tbl)"
      and "(rid, req_Node req, req_Transport req) \<in> conflict_key ` set tbl"
  proof -
    have "insert_on_conflict e tbl =
      map (\<lambda>r. if conflict_key r = conflict_key e then r\<lparr>Details := Details e\<rparr> else r) tbl"
      using that key by (intro insert_on_conflict_existing) simp_all
    then show ?thesis
      unfolding key det single by simp
  qed
  have again: "upsertTransportDetailsBatch rid (insert_on_conflict e tbl) [req] =
      Inr (insert_on_conflict e tbl, {req_Node req})"
    unfolding single by (simp add: insert_on_conflict_idem)
  have present: "upsertTransportDetailsBatch rid tbl [req] = Inr (tbl, {req_Node req})"
    if "distinct (map conflict_key tbl)" and "e \<in> set tbl"
    unfolding single using that by (simp add: insert_on_conflict_present)
  from existing present [unfolded e_def] single again show ?thesis
    by blast
qed

theorem upsert_existing_replaces_details_only_witness:
  "distinct (map conflict_key
      [\<lparr>Registry = ''r1'', Node = ''node1'', Transport = ''grpc'', Details = ''old''\<rparr>,
       \<lparr>Registry = ''r1'', Node = ''node2'', Transport = ''grpc'', Details = ''other''\<rparr>])
   \<and> (''r1'', ''node1'', ''grpc'') \<in> conflict_key ` set
      [\<lparr>Registry = ''r1'', Node = ''node1'', Transport = ''grpc'', Details = ''old''\<rparr>,
       \<lparr>Registry = ''r1'', Node = ''node2'', Transport = ''grpc'', Details = ''other''\<rparr>]
   \<and> upsertTransportDetailsBatch ''r1''
      [\<lparr>Registry = ''r1'', Node = ''node1'', Transport = ''grpc'', Details = ''old''\<rparr>,
       \<lparr>Registry = ''r1'', Node = ''node2'', Transport = ''grpc'', Details = ''other''\<rparr>]
      [\<lparr>req_Node = ''node1'', req_Transport = ''grpc'', req_Details = ''new''\<rparr>] =
     Inr ([\<lparr>Registry = ''r1'', Node = ''node1'', Transport = ''grpc'', Details = ''new''\<rparr>,
           \<lparr>Registry = ''r1'', Node = ''node2'', Transport = ''grpc'', Details = ''other''\<rparr>],
          {''node1''})"
  using upsert_existing_replaces_details_only
    [of "\<lparr>req_Node = ''node1'', req_Transport = ''grpc'', req_Details = ''new''\<rparr>"
        "[\<lparr>Registry = ''r1'', Node = ''node1'', Transport = ''grpc'', Details = ''old''\<rparr>,
          \<lparr>Registry = ''r1'', Node = ''node2'', Transport = ''grpc'', Details = ''other''\<rparr>]"
        "''r1''"]
  by (simp add: conflict_key_def)


subsection \<open>Properties of the transport writer\<close>













subsection \<open>Properties of the endorsement gate\<close>

lemma find_contention_None_iff:
  "find_contention signed txId ss = None \<longleftrightarrow>
   (\<forall>s \<in> set ss. signed s = None \<or> signed s = Some txId)"
  by (induction ss) (auto split: option.splits)

lemma find_contention_SomeD:
  "find_contention signed txId ss = Some (s, holder) \<Longrightarrow>
   s \<in> set ss \<and> signed s = Some holder \<and> holder \<noteq> txId"
  by (induction ss) (auto split: option.splits if_splits)

lemma record_inputs_apply:
  "record_inputs signed txId ss s = (if s \<in> set ss then Some txId else signed s)"
  by (induction ss arbitrary: signed) auto

lemma ApproveEndorsement_approves_iff:
  "fst (ApproveEndorsement g txId ins) = Approve \<longleftrightarrow>
   (\<forall>s \<in> set ins. signedInputs g s = None \<or> signedInputs g s = Some txId)"
  by (auto simp: ApproveEndorsement_def find_contention_None_iff [symmetric]
      split: option.splits)

lemma ApproveEndorsement_records:
  "fst (ApproveEndorsement g txId ins) = Approve \<Longrightarrow>
   signedInputs (snd (ApproveEndorsement g txId ins)) s =
     (if s \<in> set ins then Some txId else signedInputs g s)"
  by (auto simp: ApproveEndorsement_def record_inputs_apply split: option.splits)

lemma ApproveEndorsement_reject_unchanged:
  "fst (ApproveEndorsement g txId ins) \<noteq> Approve \<Longrightarrow>
   snd (ApproveEndorsement g txId ins) = g"
  by (auto simp: ApproveEndorsement_def split: option.splits)

lemma ApproveEndorsement_reject_holder:
  "fst (ApproveEndorsement g txId ins) = Reject r holder \<Longrightarrow>
   holder \<noteq> txId \<and> (\<exists>s \<in> set ins. signedInputs g s = Some holder \<and> r = InputAlreadySigned s)"
  by (auto simp: ApproveEndorsement_def split: option.splits dest!: find_contention_SomeD)

lemma OnTransactionReverted_signedInputs:
  "signedInputs (OnTransactionReverted g txId) s =
     (if signedInputs g s = Some txId then None else signedInputs g s)"
  by (simp add: OnTransactionReverted_def)


text \<open>
  Claim C5.  \<open>ApproveEndorsement\<close> approves exactly when no input state is recorded
  for another transaction.  On approval every input state is recorded for the
  transaction and nothing else changes in \<open>signedInputs\<close>, so that a request of another
  transaction that shares an input state is then rejected and leaves the gate as it is.
  \<open>OnTransactionReverted\<close> removes the recordings of the reverted transaction and no
  other, so that a request of another transaction whose input states were free or held
  by the reverted transaction is then approved.
\<close>

theorem approve_endorsement_no_double_spend:
  "(fst (ApproveEndorsement g txId ins) = Approve \<longleftrightarrow>
      (\<forall>s \<in> set ins. signedInputs g s = None \<or> signedInputs g s = Some txId))
   \<and> (fst (ApproveEndorsement g txId ins) = Approve \<longrightarrow>
        (\<forall>s. signedInputs (snd (ApproveEndorsement g txId ins)) s =
               (if s \<in> set ins then Some txId else signedInputs g s))
        \<and> (other \<noteq> txId \<and> set ins \<inter> set ins' \<noteq> {} \<longrightarrow>
             fst (ApproveEndorsement (snd (ApproveEndorsement g txId ins)) other ins') \<noteq> Approve
             \<and> snd (ApproveEndorsement (snd (ApproveEndorsement g txId ins)) other ins') =
                 snd (ApproveEndorsement g txId ins)))
   \<and> (\<forall>s. signedInputs (OnTransactionReverted g txId) s =
             (if signedInputs g s = Some txId then None else signedInputs g s))
   \<and> ((\<forall>s \<in> set ins'. signedInputs g s = None \<or> signedInputs g s = Some txId
                          \<or> signedInputs g s = Some other) \<longrightarrow>
        fst (ApproveEndorsement (OnTransactionReverted g txId) other ins') = Approve)"
proof (intro conjI impI allI)
  show "fst (ApproveEndorsement g txId ins) = Approve \<longleftrightarrow>
      (\<forall>s \<in> set ins. signedInputs g s = None \<or> signedInputs g s = Some txId)"
    by (rule ApproveEndorsement_approves_iff)
next
  fix s
  assume "fst (ApproveEndorsement g txId ins) = Approve"
  then show "signedInputs (snd (ApproveEndorsement g txId ins)) s =
               (if s \<in> set ins then Some txId else signedInputs g s)"
    by (rule ApproveEndorsement_records)
next
  assume ok: "fst (ApproveEndorsement g txId ins) = Approve"
    and other: "other \<noteq> txId \<and> set ins \<inter> set ins' \<noteq> {}"
  let ?g' = "snd (ApproveEndorsement g txId ins)"
  from other obtain s where s: "s \<in> set ins" "s \<in> set ins'"
    by auto
  from ok s(1) have "signedInputs ?g' s = Some txId"
    by (simp add: ApproveEndorsement_records)
  with s(2) other have "\<not> (\<forall>s \<in> set ins'. signedInputs ?g' s = None \<or> signedInputs ?g' s = Some other)"
    by auto
  then show rej: "fst (ApproveEndorsement ?g' other ins') \<noteq> Approve"
    by (simp add: ApproveEndorsement_approves_iff)
  then show "snd (ApproveEndorsement ?g' other ins') = ?g'"
    by (rule ApproveEndorsement_reject_unchanged)
next
  fix s
  show "signedInputs (OnTransactionReverted g txId) s =
             (if signedInputs g s = Some txId then None else signedInputs g s)"
    by (rule OnTransactionReverted_signedInputs)
next
  assume "\<forall>s \<in> set ins'. signedInputs g s = None \<or> signedInputs g s = Some txId
                          \<or> signedInputs g s = Some other"
  then show "fst (ApproveEndorsement (OnTransactionReverted g txId) other ins') = Approve"
    by (auto simp: ApproveEndorsement_approves_iff OnTransactionReverted_signedInputs)
qed

text \<open>
  The run of the tests of the sequencer on one state: the first request is approved, the
  request of a second transaction on the same state is rejected with the first as the
  holder, and after the first is reverted the second is approved.
\<close>

theorem approve_endorsement_no_double_spend_witness:
  "fst (ApproveEndorsement new_gate ''txn1'' [''state1'']) = Approve
   \<and> fst (ApproveEndorsement (snd (ApproveEndorsement new_gate ''txn1'' [''state1'']))
            ''txn2'' [''state1'']) = Reject (InputAlreadySigned ''state1'') ''txn1''
   \<and> snd (ApproveEndorsement (snd (ApproveEndorsement new_gate ''txn1'' [''state1'']))
            ''txn2'' [''state1'']) = snd (ApproveEndorsement new_gate ''txn1'' [''state1''])
   \<and> fst (ApproveEndorsement
            (OnTransactionReverted (snd (ApproveEndorsement new_gate ''txn1'' [''state1'']))
               ''txn1'')
            ''txn2'' [''state1'']) = Approve"
proof -
  let ?g1 = "snd (ApproveEndorsement new_gate ''txn1'' [''state1''])"
  note c5 = approve_endorsement_no_double_spend
  have a1: "fst (ApproveEndorsement new_gate ''txn1'' [''state1'']) = Approve"
    using c5 [of new_gate "''txn1''" "[''state1'']"] by (simp add: new_gate_def)
  have held: "signedInputs ?g1 ''state1'' = Some ''txn1''"
    using c5 [of new_gate "''txn1''" "[''state1'']"] a1 by simp
  have rej: "fst (ApproveEndorsement ?g1 ''txn2'' [''state1'']) \<noteq> Approve"
    and same: "snd (ApproveEndorsement ?g1 ''txn2'' [''state1'']) = ?g1"
    using c5 [of new_gate "''txn1''" "[''state1'']" "''txn2''" "[''state1'']"] a1 by simp_all
  have holder: "fst (ApproveEndorsement ?g1 ''txn2'' [''state1'']) =
      Reject (InputAlreadySigned ''state1'') ''txn1''"
    using held by (simp add: ApproveEndorsement_def)
  have a2: "fst (ApproveEndorsement (OnTransactionReverted ?g1 ''txn1'') ''txn2'' [''state1'']) =
      Approve"
    using c5 [of ?g1 "''txn1''" "[]" "''txn2''" "[''state1'']"] held by simp
  from a1 holder same a2 show ?thesis by simp
qed

end
